theory Spec2Isabelle
  imports Main "HOL-Library.Sublist"
begin

section \<open>String normalizer\<close>

text \<open>
  Strings are lists of 8-bit characters, read as code points of the default \<open>latin-1\<close>
  encoding of the converter.

  \<open>str_replace old new s\<close> is Python's \<open>s.replace(old, new)\<close>: the occurrences of \<open>old\<close>
  are replaced from left to right, without overlap; an empty \<open>old\<close> puts \<open>new\<close> around every
  character.
\<close>

function str_replace :: "string \<Rightarrow> string \<Rightarrow> string \<Rightarrow> string" where
  "str_replace old new [] = (if old = [] then new else [])"
| "str_replace old new (c # cs) =
     (if old = [] then new @ c # str_replace old new cs
      else if prefix old (c # cs) then new @ str_replace old new (drop (length old) (c # cs))
      else c # str_replace old new cs)"
  by pat_completeness auto
termination
  by (relation "measure (\<lambda>(old, new, s). length s)") auto

text \<open>The administrative words of \<open>self.suffixes\<close>, in the order of the source.\<close>

definition self_suffixes :: "string list" where
  "self_suffixes = [''Province'', ''Region'', ''District'', ''State'', ''Governate'',
               ''Department'', ''Oblast'', ''City'', ''Zone'', ''Prefecture'']"

text \<open>
  \<open>sub_spaces s\<close> is \<open>re.sub(' +', ' ', s)\<close>: every maximal run of spaces becomes one space.
  \<open>py_isspace\<close> holds of the code points below 256 that Python counts as whitespace, the ones
  \<open>str.rstrip()\<close> removes.
\<close>

function sub_spaces :: "string \<Rightarrow> string" where
  "sub_spaces [] = []"
| "sub_spaces (c # cs) =
     (if c = CHR '' '' then CHR '' '' # sub_spaces (dropWhile (\<lambda>x. x = CHR '' '') cs)
      else c # sub_spaces cs)"
  by pat_completeness auto
termination
  by (relation "measure length") (auto simp: less_Suc_eq_le length_dropWhile_le)

definition py_isspace :: "char \<Rightarrow> bool" where
  "py_isspace c = (of_char c \<in> {9, 10, 11, 12, 13, 28, 29, 30, 31, 32, 133, 160 :: nat})"

definition rstrip :: "string \<Rightarrow> string" where
  "rstrip s = rev (dropWhile py_isspace (rev s))"

text \<open>\<open>__remove_suffix__\<close>: one \<open>replace\<close> per suffix word, then the two whitespace steps.\<close>

definition remove_suffix :: "string \<Rightarrow> string" where
  "remove_suffix string =
     rstrip (sub_spaces (fold (\<lambda>suffix s. str_replace suffix [] s) self_suffixes string))"

text \<open>The loop over the suffix words alone, for any list of words.\<close>

definition strip_words :: "string list \<Rightarrow> string \<Rightarrow> string" where
  "strip_words ws s = fold (\<lambda>suffix s. str_replace suffix [] s) ws s"

text \<open>The predicates in which the properties of the normalizer are stated.\<close>

definition contains_suffix_word :: "string \<Rightarrow> bool" where
  "contains_suffix_word s = list_ex (\<lambda>w. sublist w s) self_suffixes"

definition suffix_or_space :: "string \<Rightarrow> bool" where
  "suffix_or_space t = (t \<in> set self_suffixes \<or> (length t = 1 \<and> py_isspace (hd t)))"


subsection \<open>No step of the normalizer makes a string longer\<close>

lemma str_replace_length_le:
  "new = [] \<Longrightarrow> length (str_replace old new s) \<le> length s"
  by (induction old new s rule: str_replace.induct) (auto simp: le_SucI)

lemma str_replace_same_length:
  "new = [] \<Longrightarrow> length (str_replace old new s) = length s \<Longrightarrow> str_replace old new s = s"
proof (induction old new s rule: str_replace.induct)
  case (1 old new)
  then show ?case by simp
next
  case (2 old new c cs)
  show ?case
  proof (cases "old \<noteq> [] \<and> prefix old (c # cs)")
    case True
    have "length (str_replace old new (drop (length old) (c # cs))) \<le> length (c # cs) - length old"
      using str_replace_length_le [OF "2.prems"(1), of old "drop (length old) (c # cs)"] by simp
    moreover obtain n where "length old = Suc n" using True by (cases old) auto
    ultimately have "length (str_replace old new (drop (length old) (c # cs))) < length (c # cs)"
      by simp
    then have "length (str_replace old new (c # cs)) < length (c # cs)"
      using True "2.prems"(1) by simp
    with "2.prems"(2) show ?thesis by simp
  next
    case False
    with 2 show ?thesis by (auto split: if_splits)
  qed
qed

lemma str_replace_absent:
  "old \<noteq> [] \<Longrightarrow> \<not> sublist old s \<Longrightarrow> str_replace old new s = s"
  by (induction s) (auto simp: sublist_Cons_right)

lemma sub_spaces_length_le: "length (sub_spaces s) \<le> length s"
proof (induction s rule: sub_spaces.induct)
  case 1
  then show ?case by simp
next
  case (2 c cs)
  have "length (dropWhile (\<lambda>x. x = CHR '' '') cs) \<le> length cs"
    by (rule length_dropWhile_le)
  with 2 show ?case by auto
qed

lemma sub_spaces_same_length:
  "length (sub_spaces s) = length s \<Longrightarrow> sub_spaces s = s"
proof (induction s rule: sub_spaces.induct)
  case 1
  then show ?case by simp
next
  case (2 c cs)
  show ?case
  proof (cases "c = CHR '' ''")
    case True
    let ?d = "dropWhile (\<lambda>x. x = CHR '' '') cs"
    have a: "length (sub_spaces ?d) \<le> length ?d" by (rule sub_spaces_length_le)
    have b: "length ?d \<le> length cs" by (rule length_dropWhile_le)
    from "2.prems" True have c: "length (sub_spaces ?d) = length cs" by simp
    from a b c have len: "length ?d = length cs" and len2: "length (sub_spaces ?d) = length ?d"
      by simp_all
    have "length (takeWhile (\<lambda>x. x = CHR '' '') cs) + length ?d = length cs"
      by (metis length_append takeWhile_dropWhile_id)
    with len have "takeWhile (\<lambda>x. x = CHR '' '') cs = []" by simp
    then have "?d = cs" by (metis append_Nil takeWhile_dropWhile_id)
    moreover have "sub_spaces ?d = ?d" using "2.IH"(1) [OF True len2] .
    ultimately show ?thesis using True by simp
  next
    case False
    with 2 show ?thesis by simp
  qed
qed

lemma rstrip_length_le: "length (rstrip s) \<le> length s"
  using length_dropWhile_le [of py_isspace "rev s"] by (simp add: rstrip_def)

lemma rstrip_same_length: "length (rstrip s) = length s \<Longrightarrow> rstrip s = s"
proof -
  assume a: "length (rstrip s) = length s"
  have "length (takeWhile py_isspace (rev s)) + length (dropWhile py_isspace (rev s)) = length (rev s)"
    by (metis length_append takeWhile_dropWhile_id)
  with a have "takeWhile py_isspace (rev s) = []" by (simp add: rstrip_def)
  then have "dropWhile py_isspace (rev s) = rev s" by (metis append_Nil takeWhile_dropWhile_id)
  then show ?thesis by (simp add: rstrip_def)
qed

lemma strip_words_length_le: "length (strip_words ws s) \<le> length s"
proof (induction ws arbitrary: s)
  case Nil
  then show ?case by (simp add: strip_words_def)
next
  case (Cons w ws)
  have "length (strip_words ws (str_replace w [] s)) \<le> length (str_replace w [] s)"
    using Cons.IH .
  also have "\<dots> \<le> length s" by (simp add: str_replace_length_le)
  finally show ?case by (simp add: strip_words_def)
qed

lemma strip_words_same_length:
  "length (strip_words ws s) = length s \<Longrightarrow> strip_words ws s = s"
proof (induction ws arbitrary: s)
  case Nil
  then show ?case by (simp add: strip_words_def)
next
  case (Cons w ws)
  let ?t = "str_replace w [] s"
  have eq: "strip_words (w # ws) s = strip_words ws ?t" by (simp add: strip_words_def)
  have a: "length (strip_words ws ?t) \<le> length ?t" by (rule strip_words_length_le)
  have b: "length ?t \<le> length s" by (simp add: str_replace_length_le)
  from Cons.prems eq a b have l1: "length ?t = length s" and l2: "length (strip_words ws ?t) = length ?t"
    by simp_all
  from l1 have "?t = s" by (simp add: str_replace_same_length)
  moreover from l2 have "strip_words ws ?t = ?t" by (rule Cons.IH)
  ultimately show ?case using eq by simp
qed

lemma strip_words_absent:
  "\<forall>w \<in> set ws. w \<noteq> [] \<and> \<not> sublist w s \<Longrightarrow> strip_words ws s = s"
  by (induction ws) (simp_all add: strip_words_def str_replace_absent)

lemma remove_suffix_alt: "remove_suffix s = rstrip (sub_spaces (strip_words self_suffixes s))"
  by (simp add: remove_suffix_def strip_words_def)

lemma remove_suffix_length_le: "length (remove_suffix s) \<le> length s"
proof -
  have "length (remove_suffix s) \<le> length (sub_spaces (strip_words self_suffixes s))"
    by (simp add: remove_suffix_alt rstrip_length_le)
  also have "\<dots> \<le> length (strip_words self_suffixes s)" by (rule sub_spaces_length_le)
  also have "\<dots> \<le> length s" by (rule strip_words_length_le)
  finally show ?thesis .
qed

lemma remove_suffix_shorter:
  assumes "remove_suffix s \<noteq> s"
  shows "length (remove_suffix s) < length s"
proof (rule ccontr)
  assume "\<not> length (remove_suffix s) < length s"
  with remove_suffix_length_le [of s] have e: "length (remove_suffix s) = length s" by simp
  let ?a = "strip_words self_suffixes s"
  let ?b = "sub_spaces ?a"
  have 1: "length (rstrip ?b) \<le> length ?b" by (rule rstrip_length_le)
  have 2: "length ?b \<le> length ?a" by (rule sub_spaces_length_le)
  have 3: "length ?a \<le> length s" by (rule strip_words_length_le)
  from e have 4: "length (rstrip ?b) = length s" by (simp add: remove_suffix_alt)
  from 1 2 3 4 have "length (rstrip ?b) = length ?b" "length ?b = length ?a" "length ?a = length s"
    by simp_all
  then have "rstrip ?b = ?b" "?b = ?a" "?a = s"
    by (simp_all add: rstrip_same_length sub_spaces_same_length strip_words_same_length)
  then have "remove_suffix s = s" by (simp add: remove_suffix_alt)
  with assms show False by simp
qed

subsection \<open>Strings the normalizer leaves alone\<close>

lemma sub_spaces_no_runs:
  "\<not> sublist ''  '' s \<Longrightarrow> sub_spaces s = s"
proof (induction s rule: sub_spaces.induct)
  case 1
  then show ?case by simp
next
  case (2 c cs)
  from "2.prems" have np: "\<not> prefix ''  '' (c # cs)" and ns: "\<not> sublist ''  '' cs"
    by (simp_all add: sublist_Cons_right)
  show ?case
  proof (cases "c = CHR '' ''")
    case True
    with np have "cs = [] \<or> hd cs \<noteq> CHR '' ''" by (cases cs) auto
    then have d: "dropWhile (\<lambda>x. x = CHR '' '') cs = cs" by (simp add: dropWhile_eq_self_iff)
    with "2.IH"(1) [OF True] ns True show ?thesis by simp
  next
    case False
    with "2.IH"(2) ns show ?thesis by simp
  qed
qed

lemma rstrip_no_trailing:
  "s = [] \<or> \<not> py_isspace (last s) \<Longrightarrow> rstrip s = s"
proof (cases "s = []")
  case True
  then show ?thesis by (simp add: rstrip_def)
next
  case False
  assume "s = [] \<or> \<not> py_isspace (last s)"
  with False have "\<not> py_isspace (hd (rev s))" by (simp add: hd_rev)
  then have "dropWhile py_isspace (rev s) = rev s" by (simp add: dropWhile_eq_self_iff)
  then show ?thesis by (simp add: rstrip_def)
qed

lemma sub_spaces_Nil_iff: "sub_spaces s = [] \<longleftrightarrow> s = []"
  by (cases s) auto

lemma hd_sub_spaces: "hd (sub_spaces s) = hd s"
  by (cases s) auto

lemma sub_spaces_collapsed: "\<not> sublist ''  '' (sub_spaces s)"
proof (induction s rule: sub_spaces.induct)
  case 1
  then show ?case by simp
next
  case (2 c cs)
  show ?case
  proof (cases "c = CHR '' ''")
    case True
    let ?d = "dropWhile (\<lambda>x. x = CHR '' '') cs"
    have "?d = [] \<or> hd ?d \<noteq> CHR '' ''"
      by (metis (mono_tags, lifting) dropWhile_eq_Nil_conv hd_dropWhile)
    then have "sub_spaces ?d = [] \<or> hd (sub_spaces ?d) \<noteq> CHR '' ''"
      by (simp add: sub_spaces_Nil_iff hd_sub_spaces)
    then have "\<not> prefix ''  '' (CHR '' '' # sub_spaces ?d)"
      by (cases "sub_spaces ?d") auto
    with "2.IH"(1) [OF True] True show ?thesis by (simp add: sublist_Cons_right)
  next
    case False
    with "2.IH"(2) show ?thesis by (simp add: sublist_Cons_right)
  qed
qed

lemma prefix_rstrip: "prefix (rstrip s) s"
proof -
  have "suffix (dropWhile py_isspace (rev s)) (rev s)" by (rule suffix_dropWhile)
  then show ?thesis by (simp add: rstrip_def suffix_to_prefix)
qed

lemma sublist_rstrip: "sublist w (rstrip s) \<Longrightarrow> sublist w s"
  using prefix_rstrip [of s] by (meson prefix_imp_sublist sublist_order.order.trans)

lemma rstrip_idem: "rstrip (rstrip s) = rstrip s"
  by (simp add: rstrip_def)

lemma suffixes_nonempty: "\<forall>w \<in> set self_suffixes. w \<noteq> []"
  by (simp add: self_suffixes_def)

lemma remove_suffix_absent:
  assumes "\<forall>w \<in> set self_suffixes. \<not> sublist w s"
  shows "remove_suffix s = rstrip (sub_spaces s)"
  using assms suffixes_nonempty by (simp add: remove_suffix_alt strip_words_absent)

subsection \<open>Strings made of suffix words and whitespace\<close>

lemma suffixes_parallel:
  "\<forall>a \<in> set self_suffixes. \<forall>b \<in> set self_suffixes. a = b \<or> a \<parallel> b"
  by code_simp

lemma suffixes_capital:
  "\<forall>a \<in> set self_suffixes. \<forall>b \<in> set self_suffixes. hd a \<notin> set (tl b)"
  by code_simp

lemma suffixes_hd: "\<forall>a \<in> set self_suffixes. a \<noteq> [] \<and> \<not> py_isspace (hd a)"
  by code_simp

lemma str_replace_skip:
  "old \<noteq> [] \<Longrightarrow> hd old \<notin> set u \<Longrightarrow> str_replace old new (u @ rest) = u @ str_replace old new rest"
  by (induction u) (auto simp: prefix_def neq_Nil_conv)

lemma str_replace_match:
  "old \<noteq> [] \<Longrightarrow> str_replace old new (old @ rest) = new @ str_replace old new rest"
  by (cases old) auto

lemma str_replace_skip_word:
  assumes "old \<noteq> []" and "t \<noteq> []" and "\<not> prefix old (t @ rest)" and "hd old \<notin> set (tl t)"
  shows "str_replace old new (t @ rest) = t @ str_replace old new rest"
proof -
  from assms(2) obtain c u where t: "t = c # u" by (cases t) auto
  have "str_replace old new (c # (u @ rest)) = c # str_replace old new (u @ rest)"
    using assms(1,3) t by simp
  also have "\<dots> = c # u @ str_replace old new rest"
    using assms(1,4) t by (simp add: str_replace_skip)
  finally show ?thesis using t by simp
qed

lemma str_replace_tokens:
  assumes "old \<in> set self_suffixes" and "list_all suffix_or_space ts"
  shows "str_replace old [] (concat ts) = concat (filter (\<lambda>t. t \<noteq> old) ts)"
  using assms(2)
proof (induction ts)
  case Nil
  then show ?case using assms(1) suffixes_hd by auto
next
  case (Cons t ts)
  from assms(1) suffixes_hd have old: "old \<noteq> []" "\<not> py_isspace (hd old)" by auto
  from Cons.prems have ih: "str_replace old [] (concat ts) = concat (filter (\<lambda>t. t \<noteq> old) ts)"
    using Cons.IH by simp
  from Cons.prems have "suffix_or_space t" by simp
  then consider (same) "t = old" | (other) "t \<in> set self_suffixes" "t \<noteq> old"
    | (space) "length t = 1" "py_isspace (hd t)" "t \<notin> set self_suffixes"
    by (auto simp: suffix_or_space_def)
  then show ?case
  proof cases
    case same
    then show ?thesis using ih old(1) by (simp add: str_replace_match)
  next
    case other
    with assms(1) suffixes_parallel have "old \<parallel> t" by auto
    then have "old @ [] \<parallel> t @ concat ts" by (rule parallel_append)
    then have np: "\<not> prefix old (t @ concat ts)" by (simp add: parallel_def)
    from other(1) suffixes_hd have tn: "t \<noteq> []" by auto
    from other(1) assms(1) suffixes_capital have "hd old \<notin> set (tl t)" by auto
    with old(1) tn np have "str_replace old [] (t @ concat ts) = t @ str_replace old [] (concat ts)"
      by (rule str_replace_skip_word)
    with ih other(2) show ?thesis by simp
  next
    case space
    then obtain c where t: "t = [c]" by (cases t) auto
    with space(2) old(2) have "hd old \<notin> set t" by auto
    with old(1) have "str_replace old [] (t @ concat ts) = t @ str_replace old [] (concat ts)"
      by (rule str_replace_skip)
    moreover from space(3) assms(1) have "t \<noteq> old" by auto
    ultimately show ?thesis using ih by simp
  qed
qed

lemma strip_words_tokens:
  "set ws \<subseteq> set self_suffixes \<Longrightarrow> list_all suffix_or_space ts \<Longrightarrow>
   strip_words ws (concat ts) = concat (filter (\<lambda>t. t \<notin> set ws) ts)"
proof (induction ws arbitrary: ts)
  case Nil
  then show ?case by (simp add: strip_words_def)
next
  case (Cons w ws)
  let ?ts = "filter (\<lambda>t. t \<noteq> w) ts"
  have "strip_words (w # ws) (concat ts) = strip_words ws (str_replace w [] (concat ts))"
    by (simp add: strip_words_def)
  also have "\<dots> = strip_words ws (concat ?ts)"
    using Cons.prems by (simp add: str_replace_tokens)
  also have "\<dots> = concat (filter (\<lambda>t. t \<notin> set ws) ?ts)"
    using Cons.prems by (intro Cons.IH) (auto simp: list_all_iff)
  also have "\<dots> = concat (filter (\<lambda>t. t \<notin> set (w # ws)) ts)"
    by (simp add: conj_commute)
  finally show ?case .
qed

lemma set_sub_spaces: "set (sub_spaces s) \<subseteq> set s"
proof (induction s rule: sub_spaces.induct)
  case 1
  then show ?case by simp
next
  case (2 c cs)
  then show ?case by (auto dest: set_dropWhileD)
qed

lemma rstrip_all_space: "\<forall>c \<in> set s. py_isspace c \<Longrightarrow> rstrip s = []"
  by (simp add: rstrip_def)

lemma remove_suffix_tokens:
  assumes "list_all suffix_or_space ts"
  shows "remove_suffix (concat ts) = []"
proof -
  have "strip_words self_suffixes (concat ts) = concat (filter (\<lambda>t. t \<notin> set self_suffixes) ts)"
    using assms by (simp add: strip_words_tokens)
  moreover have "\<forall>c \<in> set (concat (filter (\<lambda>t. t \<notin> set self_suffixes) ts)). py_isspace c"
  proof
    fix c assume "c \<in> set (concat (filter (\<lambda>t. t \<notin> set self_suffixes) ts))"
    then obtain t where t: "t \<in> set ts" "t \<notin> set self_suffixes" "c \<in> set t" by auto
    with assms have "length t = 1" "py_isspace (hd t)"
      by (auto simp: list_all_iff suffix_or_space_def)
    with t(3) show "py_isspace c" by (cases t) auto
  qed
  ultimately have "\<forall>c \<in> set (sub_spaces (strip_words self_suffixes (concat ts))). py_isspace c"
    using set_sub_spaces by fastforce
  then show ?thesis by (simp add: remove_suffix_alt rstrip_all_space)
qed

section \<open>The resolver\<close>

subsection \<open>Parentheticals\<close>

text \<open>
  \<open>__remove_parens__\<close> is \<open>re.sub(r" ?\([^)]+\)", "", string)\<close>. \<open>paren_group s\<close> matches
  the group \<open>\([^)]+\)\<close> at the start of \<open>s\<close> and returns what follows it; \<open>parens_match\<close> puts
  the optional space in front; \<open>remove_parens\<close> deletes the matches from left to right.
\<close>

definition paren_group :: "string \<Rightarrow> string option" where
  "paren_group s =
     (case s of
        [] \<Rightarrow> None
      | c # cs \<Rightarrow>
          if c = CHR ''(''
          then (let body = takeWhile (\<lambda>x. x \<noteq> CHR '')'') cs;
                    rest = dropWhile (\<lambda>x. x \<noteq> CHR '')'') cs
                in if body \<noteq> [] \<and> rest \<noteq> [] then Some (tl rest) else None)
          else None)"

definition parens_match :: "string \<Rightarrow> string option" where
  "parens_match s =
     (case s of
        [] \<Rightarrow> None
      | c # cs \<Rightarrow>
          if c = CHR '' ''
          then (case paren_group cs of Some rest \<Rightarrow> Some rest | None \<Rightarrow> paren_group s)
          else paren_group s)"

lemma paren_group_shorter: "paren_group s = Some rest \<Longrightarrow> length rest < length s"
proof -
  assume a: "paren_group s = Some rest"
  then obtain c cs where s: "s = c # cs" by (cases s) (auto simp: paren_group_def)
  let ?d = "dropWhile (\<lambda>x. x \<noteq> CHR '')'') cs"
  from a s have "rest = tl ?d" "?d \<noteq> []"
    by (auto simp: paren_group_def Let_def split: if_splits)
  moreover have "length ?d \<le> length cs" by (rule length_dropWhile_le)
  ultimately show ?thesis using s by (cases ?d) auto
qed

lemma parens_match_shorter: "parens_match s = Some rest \<Longrightarrow> length rest < length s"
  by (cases s)
     (auto simp: parens_match_def split: if_splits option.splits
           dest!: paren_group_shorter)

function remove_parens :: "string \<Rightarrow> string" where
  "remove_parens [] = []"
| "remove_parens (c # cs) =
     (case parens_match (c # cs) of
        Some rest \<Rightarrow> remove_parens rest
      | None \<Rightarrow> c # remove_parens cs)"
  by pat_completeness auto
termination
  by (relation "measure length") (auto dest: parens_match_shorter)


subsection \<open>Data\<close>

text \<open>
  A record of the cache is the tuple (corrected name, country name, ISO code); \<open>None\<close> is an
  absent field. A row of the geo table carries the cells of the name columns
  (\<open>__geocols__\<close>, in column order), and the cells \<open>name\<close>, \<open>country_name\<close> and \<open>iso_a2\<close> that
  the matcher returns; a null cell is \<open>None\<close>. The remote service is a function from the
  request URL to its response, of which the status code, the text and the candidates of
  the JSON payload are kept.

  \<open>config\<close> holds what a session does not change: the members of the converter that are
  set at construction and never assigned again, and the two outside parties, the remote
  service \<open>endpoint\<close> and the regular-expression library \<open>re_library\<close>. The library
  takes a pattern and gives its search over strings, or \<open>None\<close> when it rejects the
  pattern (\<open>re.error\<close>); it is left open, so that what is proved holds whatever the
  library answers. \<open>session\<close> holds the members that change: the cache
  \<open>__region_dict__\<close>, the list \<open>error_regions\<close>, and two logs of effects, the warnings
  that the converter issues and the requests it sends.
\<close>

type_synonym country_tuple = "string option \<times> string option \<times> string option"

record geo_row =
  name_cols :: "string option list"
  name :: "string option"
  country_name :: "string option"
  iso_a2 :: "string option"

record candidate =
  cand_name :: string
  cand_country_name :: string
  cand_country_code :: string

record response =
  status_code :: nat
  resp_text :: string
  data :: "candidate list"

datatype error = TransportFailure nat string | ReError | IndexError

record config =
  geos :: "geo_row list"
  manual_dict :: "string \<rightharpoonup> string \<times> string \<times> string"
  endpoint :: "string \<Rightarrow> response"
  re_library :: "string \<Rightarrow> (string \<Rightarrow> bool) option"
  warn_region_mismatch :: int

record session =
  region_dict :: "string \<rightharpoonup> country_tuple"
  error_regions :: "string list"
  warnings :: "string list"
  requests :: "string list"

subsection \<open>Remote search client\<close>

definition connect_to_endpoint ::
  "config \<Rightarrow> session \<Rightarrow> string \<Rightarrow> (error + candidate list) \<times> session" where
  "connect_to_endpoint cfg st url =
     (let response = endpoint cfg url;
          st1 = st\<lparr>requests := requests st @ [url]\<rparr>
      in if status_code response \<noteq> 200
         then (Inl (TransportFailure (status_code response) (resp_text response)), st1)
         else (Inr (data response), st1))"

definition search_url :: string where
  "search_url = ''https://graph.facebook.com/v8.0/search?location_types=[%22region%22]&type=adgeolocation&q=''"

function region_to_country_from_API ::
  "config \<Rightarrow> session \<Rightarrow> string \<Rightarrow> (error + (string \<times> string \<times> string) option) \<times> session" where
  "region_to_country_from_API cfg st region =
     (case connect_to_endpoint cfg st (search_url @ region) of
        (Inl e, st1) \<Rightarrow> (Inl e, st1)
      | (Inr d, st1) \<Rightarrow>
          (case d of
             c # _ \<Rightarrow>
               (let country_name = cand_country_name c;
                    iso_code = cand_country_code c;
                    corrected_name = cand_name c
                in (Inr (Some (corrected_name, country_name, iso_code)),
                    st1\<lparr>region_dict := (region_dict st1)
                           (region \<mapsto> (Some corrected_name, Some country_name, Some iso_code))\<rparr>))
           | [] \<Rightarrow>
               (let region_drop_suffix = remove_suffix region
                in if region_drop_suffix \<noteq> region
                   then region_to_country_from_API cfg st1 region_drop_suffix
                   else (Inr None, st1))))"
  by pat_completeness auto
termination
  by (relation "measure (\<lambda>(cfg, st, region). length region)")
     (auto simp: remove_suffix_shorter)

declare region_to_country_from_API.simps [simp del]

subsection \<open>Geo-table matcher\<close>

text \<open>
  \<open>Series.str.contains(pat, na=False)\<close> compiles \<open>pat\<close> as a regular expression, whatever
  the column holds, and searches every non-null cell for it. \<open>re_compile\<close> is that
  compilation: a pattern without any of the special characters of the regular-expression
  syntax stands for itself, so that its search is containment as a substring; every other
  pattern is put to the library. \<open>str_contains cfg pat cell\<close> is the entry of one cell for
  a pattern that compiles: a null cell never matches. The masks are the boolean matrices
  of the source, one list per row; \<open>loc\<close> keeps the rows whose flag is set.
\<close>

definition re_special :: "char \<Rightarrow> bool" where
  "re_special c = (c \<in> set ''.^$*+?{}[]|()'' \<or> c = CHR 0x5C)"

definition re_compile :: "config \<Rightarrow> string \<Rightarrow> (string \<Rightarrow> bool) option" where
  "re_compile cfg pat = (if list_ex re_special pat then re_library cfg pat else Some (sublist pat))"

definition str_contains :: "config \<Rightarrow> string \<Rightarrow> string option \<Rightarrow> bool" where
  "str_contains cfg pat cell =
     (case re_compile cfg pat of
        None \<Rightarrow> False
      | Some search \<Rightarrow> (case cell of None \<Rightarrow> False | Some s \<Rightarrow> search s))"

definition contains_mask :: "config \<Rightarrow> geo_row list \<Rightarrow> string \<Rightarrow> bool list list" where
  "contains_mask cfg rows pat = map (\<lambda>r. map (str_contains cfg pat) (name_cols r)) rows"

definition equals_mask :: "geo_row list \<Rightarrow> string \<Rightarrow> bool list list" where
  "equals_mask rows region = map (\<lambda>r. map (\<lambda>cell. cell = Some region) (name_cols r)) rows"

definition mask_sum :: "bool list list \<Rightarrow> nat" where
  "mask_sum msk = sum_list (map (\<lambda>row. length (filter (\<lambda>b. b) row)) msk)"

definition mask_any :: "bool list list \<Rightarrow> bool list" where
  "mask_any msk = map (list_ex (\<lambda>b. b)) msk"

definition loc :: "'a list \<Rightarrow> bool list \<Rightarrow> 'a list" where
  "loc rows flags = map fst (filter snd (zip rows flags))"

definition region_to_country_from_geo ::
  "config \<Rightarrow> session \<Rightarrow> string \<Rightarrow> (error + country_tuple option) \<times> session" where
  "region_to_country_from_geo cfg st region =
     (let corrected_name = remove_suffix region
      in case re_compile cfg corrected_name of
           None \<Rightarrow> (Inl ReError, st)
         | Some _ \<Rightarrow>
      (let msk = contains_mask cfg (geos cfg) corrected_name
       in if mask_sum msk = 0 then (Inr None, st)
          else
           (let matched = loc (geos cfg) (mask_any msk);
                matched =
                  (if length matched > 1
                   then (let msk = equals_mask matched region
                         in if mask_sum msk = 0
                            then (let msk = equals_mask matched region
                                  in if mask_sum msk > 0 then loc matched (mask_any msk)
                                     else matched)
                            else loc matched (mask_any msk))
                   else matched)
            in case matched of
                 [] \<Rightarrow> (Inl IndexError, st)
               | r # _ \<Rightarrow>
                   (let out = (name r, country_name r, iso_a2 r)
                    in (Inr (Some out), st\<lparr>region_dict := (region_dict st)(region \<mapsto> out)\<rparr>)))))"

subsection \<open>Cascade\<close>

text \<open>
  \<open>manual_get\<close> is \<open>self.__manual_dict__.get(region, (None, None))\<close>: an entry read from the
  store is three strings, the default has two components. The attempts 3, 4 and 5 of
  \<open>region_to_country\<close> are separate functions, each ending in the call of the next, with
  the partial results passed on.
\<close>

definition manual_get :: "config \<Rightarrow> string \<Rightarrow> string option list" where
  "manual_get cfg region =
     (case manual_dict cfg region of
        None \<Rightarrow> [None, None]
      | Some (corrected, country, iso_code) \<Rightarrow> [Some corrected, Some country, Some iso_code])"

definition warn :: "session \<Rightarrow> string \<Rightarrow> session" where
  "warn st msg = st\<lparr>warnings := warnings st @ [msg]\<rparr>"

definition attempt_5 ::
  "config \<Rightarrow> session \<Rightarrow> string \<Rightarrow> string option list \<Rightarrow>
   (string \<times> string \<times> string) option \<Rightarrow> (error + country_tuple) \<times> session" where
  "attempt_5 cfg st region manual_tuple facebook_tuple =
     (let st1 = st\<lparr>error_regions := error_regions st @ [region]\<rparr>;
          st2 = (if warn_region_mismatch cfg \<noteq> 0
                 then warn st1 (''Region '' @ region @ '' will not match geo dataframe!'')
                 else st1)
      in if manual_tuple ! 1 \<noteq> None \<and> manual_tuple ! 2 \<noteq> None
         then (let out = (None, manual_tuple ! 1, manual_tuple ! 2)
               in (Inr out, st2\<lparr>region_dict := (region_dict st2)(region \<mapsto> out)\<rparr>))
         else
           (case facebook_tuple of
              Some (fb_name, fb_country, fb_iso) \<Rightarrow>
                (let out = (None, Some fb_country, Some fb_iso)
                 in (Inr out, st2\<lparr>region_dict := (region_dict st2)(region \<mapsto> out)\<rparr>))
            | None \<Rightarrow>
                (let st3 = (if warn_region_mismatch cfg \<noteq> 0
                            then warn st2 (''Region '' @ region @ '' not found anywhere!'')
                            else st2)
                 in (Inr (None, None, None),
                     st3\<lparr>region_dict := (region_dict st3)(region \<mapsto> (None, None, None))\<rparr>))))"

definition attempt_4 ::
  "config \<Rightarrow> session \<Rightarrow> string \<Rightarrow> string option list \<Rightarrow> (error + country_tuple) \<times> session" where
  "attempt_4 cfg st region manual_tuple =
     (case region_to_country_from_API cfg st region of
        (Inl e, st1) \<Rightarrow> (Inl e, st1)
      | (Inr None, st1) \<Rightarrow> attempt_5 cfg st1 region manual_tuple None
      | (Inr (Some facebook_tuple), st1) \<Rightarrow>
          (case region_to_country_from_geo cfg st1 (fst facebook_tuple) of
             (Inl e, st2) \<Rightarrow> (Inl e, st2)
           | (Inr (Some country_tuple), st2) \<Rightarrow> (Inr country_tuple, st2)
           | (Inr None, st2) \<Rightarrow> attempt_5 cfg st2 region manual_tuple (Some facebook_tuple)))"

definition attempt_3 ::
  "config \<Rightarrow> session \<Rightarrow> string \<Rightarrow> (error + country_tuple) \<times> session" where
  "attempt_3 cfg st region =
     (let manual_tuple = manual_get cfg region
      in case manual_tuple ! 0 of
           None \<Rightarrow> attempt_4 cfg st region manual_tuple
         | Some corrected \<Rightarrow>
             if corrected \<noteq> []
             then (case region_to_country_from_geo cfg st corrected of
                     (Inl e, st1) \<Rightarrow> (Inl e, st1)
                   | (Inr (Some country_tuple), st1) \<Rightarrow> (Inr country_tuple, st1)
                   | (Inr None, st1) \<Rightarrow> attempt_4 cfg st1 region manual_tuple)
             else attempt_4 cfg st region manual_tuple)"

definition region_to_country ::
  "config \<Rightarrow> session \<Rightarrow> string \<Rightarrow> (error + country_tuple) \<times> session" where
  "region_to_country cfg st region0 =
     (let region = remove_parens region0
      in case region_dict st region of
           Some country_tuple \<Rightarrow> (Inr country_tuple, st)
         | None \<Rightarrow>
             (case region_to_country_from_geo cfg st region of
                (Inl e, st1) \<Rightarrow> (Inl e, st1)
              | (Inr (Some country_tuple), st1) \<Rightarrow> (Inr country_tuple, st1)
              | (Inr None, st1) \<Rightarrow> attempt_3 cfg st1 region))"

text \<open>A sequence of calls in one session; a call that raises leaves its state to the next.\<close>

fun run_calls :: "config \<Rightarrow> session \<Rightarrow> string list \<Rightarrow> session" where
  "run_calls cfg st [] = st"
| "run_calls cfg st (region # regions) = run_calls cfg (snd (region_to_country cfg st region)) regions"


subsection \<open>The matcher and the cascade in closed form\<close>

text \<open>
  The rows the matcher chooses from, written with \<open>filter\<close>: the rows with a name cell in
  which the search for the normalized query succeeds, narrowed to the rows with a name
  cell equal to the query when there are several rows and some row is equal.
  \<open>row_contains_substring\<close> is the test of the specification, containment of the query as
  a substring, for every query.
\<close>

definition row_contains :: "config \<Rightarrow> string \<Rightarrow> geo_row \<Rightarrow> bool" where
  "row_contains cfg pat r = list_ex (str_contains cfg pat) (name_cols r)"

definition row_contains_substring :: "string \<Rightarrow> geo_row \<Rightarrow> bool" where
  "row_contains_substring pat r =
     list_ex (\<lambda>cell. case cell of None \<Rightarrow> False | Some s \<Rightarrow> sublist pat s) (name_cols r)"

definition row_equals :: "string \<Rightarrow> geo_row \<Rightarrow> bool" where
  "row_equals region r = list_ex (\<lambda>cell. cell = Some region) (name_cols r)"

definition row_tuple :: "geo_row \<Rightarrow> country_tuple" where
  "row_tuple r = (name r, country_name r, iso_a2 r)"

definition geo_candidates :: "config \<Rightarrow> string \<Rightarrow> geo_row list" where
  "geo_candidates cfg region =
     (let matched = filter (row_contains cfg (remove_suffix region)) (geos cfg);
          exact = filter (row_equals region) matched
      in if length matched > 1 \<and> exact \<noteq> [] then exact else matched)"

definition from_geo_row :: "geo_row list \<Rightarrow> country_tuple \<Rightarrow> bool" where
  "from_geo_row rows t = list_ex (\<lambda>r. t = row_tuple r) rows"

definition has_name :: "geo_row \<Rightarrow> bool" where
  "has_name r = list_ex (\<lambda>cell. cell \<noteq> None) (name_cols r)"

text \<open>
  The resolution of a region reaches the remote search when the cleaned region is not in
  the cache, the matcher does not find it, and the manual table gives no name that the
  matcher finds.
\<close>

definition reaches_remote_search :: "config \<Rightarrow> session \<Rightarrow> string \<Rightarrow> bool" where
  "reaches_remote_search cfg st region0 =
     (let region = remove_parens region0
      in region_dict st region = None
         \<and> fst (region_to_country_from_geo cfg st region) = Inr None
         \<and> (case manual_get cfg region ! 0 of
               None \<Rightarrow> True
             | Some corrected \<Rightarrow>
                 if corrected \<noteq> []
                 then fst (region_to_country_from_geo cfg st corrected) = Inr None
                 else True))"

text \<open>
  The queries that the remote search client sends for a region, in order: the region, and
  the stripped query after every answer of success without a candidate, as long as
  stripping changes the query.
\<close>

function search_queries :: "config \<Rightarrow> string \<Rightarrow> string list" where
  "search_queries cfg region =
     (let response = endpoint cfg (search_url @ region)
      in if status_code response = 200 \<and> data response = [] \<and> remove_suffix region \<noteq> region
         then region # search_queries cfg (remove_suffix region)
         else [region])"
  by pat_completeness auto
termination
  by (relation "measure (\<lambda>(cfg, region). length region)")
     (auto simp: remove_suffix_shorter)

declare search_queries.simps [simp del]

text \<open>What every call of the remote search client and of the cascade guarantees.\<close>

definition api_ok :: "session \<Rightarrow> string \<Rightarrow> (error + (string \<times> string \<times> string) option) \<times> session \<Rightarrow> bool" where
  "api_ok st region out =
     (error_regions (snd out) = error_regions st \<and> warnings (snd out) = warnings st
      \<and> dom (region_dict st) \<subseteq> dom (region_dict (snd out))
      \<and> ((\<forall>x. fst out \<noteq> Inr (Some x)) \<longrightarrow> region_dict (snd out) = region_dict st)
      \<and> (\<forall>e. fst out = Inl e \<longrightarrow> (\<exists>code txt. e = TransportFailure code txt))
      \<and> length (requests (snd out)) \<le> length (requests st) + Suc (length region))"

definition call_ok :: "config \<Rightarrow> session \<Rightarrow> (error + country_tuple) \<times> session \<Rightarrow> bool" where
  "call_ok cfg st out =
     (dom (region_dict st) \<subseteq> dom (region_dict (snd out))
      \<and> (\<forall>code txt. fst out = Inl (TransportFailure code txt) \<longrightarrow>
            region_dict (snd out) = region_dict st
            \<and> error_regions (snd out) = error_regions st \<and> warnings (snd out) = warnings st)
      \<and> (\<forall>t. fst out = Inr t \<longrightarrow> fst t = None \<or> from_geo_row (geos cfg) t))"


subsection \<open>Example data\<close>

text \<open>
  A small geo table, a configuration over it and the empty session, for concrete runs.
  The library of the examples is the search for the patterns whose only special character
  is the dot, which stands for every character but the newline. The examples put no other
  pattern with a special character to it, and its answer to such a pattern stands for
  nothing.
\<close>

fun dot_prefix :: "string \<Rightarrow> string \<Rightarrow> bool" where
  "dot_prefix [] s = True"
| "dot_prefix (p # ps) [] = False"
| "dot_prefix (p # ps) (c # cs) =
     ((if p = CHR ''.'' then c \<noteq> CHR 0x0A else p = c) \<and> dot_prefix ps cs)"

fun dot_search :: "string \<Rightarrow> string \<Rightarrow> bool" where
  "dot_search pat [] = dot_prefix pat []"
| "dot_search pat (c # cs) = (dot_prefix pat (c # cs) \<or> dot_search pat cs)"

definition re_library_ex :: "string \<Rightarrow> (string \<Rightarrow> bool) option" where
  "re_library_ex pat =
     (if list_ex (\<lambda>c. re_special c \<and> c \<noteq> CHR ''.'') pat then None else Some (dot_search pat))"

definition geos_ex :: "geo_row list" where
  "geos_ex =
     [\<lparr>name_cols = [Some ''Sindh'', None], name = Some ''Sindh'',
       country_name = Some ''Pakistan'', iso_a2 = Some ''PK''\<rparr>,
      \<lparr>name_cols = [Some ''Punjab'', Some ''Panjab''], name = Some ''Punjab'',
       country_name = Some ''India'', iso_a2 = Some ''IN''\<rparr>,
      \<lparr>name_cols = [Some ''Punjab'', None], name = Some ''Punjab'',
       country_name = Some ''Pakistan'', iso_a2 = Some ''PK''\<rparr>]"

definition endpoint_ex :: "string \<Rightarrow> response" where
  "endpoint_ex url =
     (if url = search_url @ ''Sindh PK''
      then \<lparr>status_code = 200, resp_text = [],
            data = [\<lparr>cand_name = ''Sindh Province'', cand_country_name = ''Pakistan'',
                     cand_country_code = ''PK''\<rparr>]\<rparr>
      else if url = search_url @ ''Foo''
      then \<lparr>status_code = 200, resp_text = [],
            data = [\<lparr>cand_name = ''Fooland'', cand_country_name = ''Freedonia'',
                     cand_country_code = ''FD''\<rparr>]\<rparr>
      else if url = search_url @ ''Nowhere''
      then \<lparr>status_code = 500, resp_text = ''Internal Server Error'', data = []\<rparr>
      else if url = search_url @ ''Bad''
      then \<lparr>status_code = 503, resp_text = ''Service Unavailable'', data = []\<rparr>
      else \<lparr>status_code = 200, resp_text = [], data = []\<rparr>)"

definition cfg_ex :: config where
  "cfg_ex = \<lparr>geos = geos_ex,
              manual_dict = [''Scinde'' \<mapsto> (''Sindh'', ''Pakistan'', ''PK'')],
              endpoint = endpoint_ex,
              re_library = re_library_ex,
              warn_region_mismatch = 1\<rparr>"

definition st_empty :: session where
  "st_empty = \<lparr>region_dict = Map.empty, error_regions = [], warnings = [], requests = []\<rparr>"

text \<open>A geo table with a region whose name is one of the suffix words.\<close>

definition geos_zone :: "geo_row list" where
  "geos_zone =
     [\<lparr>name_cols = [Some ''Alpha''], name = Some ''Alpha'',
       country_name = Some ''Freedonia'', iso_a2 = Some ''FD''\<rparr>,
      \<lparr>name_cols = [Some ''Zone''], name = Some ''Zone'',
       country_name = Some ''Sylvania'', iso_a2 = Some ''SY''\<rparr>]"

definition cfg_zone :: config where
  "cfg_zone = \<lparr>geos = geos_zone, manual_dict = Map.empty, endpoint = endpoint_ex,
                re_library = re_library_ex, warn_region_mismatch = 1\<rparr>"



section \<open>Properties of the matcher\<close>

lemma loc_map: "loc rows (map g rows) = filter g rows"
  by (induction rows) (simp_all add: loc_def)

lemma mask_sum_zero: "mask_sum (map f rows) = 0 \<longleftrightarrow> filter (\<lambda>r. list_ex (\<lambda>b. b) (f r)) rows = []"
  by (induction rows) (auto simp: mask_sum_def list_ex_iff filter_empty_conv)

lemma mask_any_map: "mask_any (map f rows) = map (\<lambda>r. list_ex (\<lambda>b. b) (f r)) rows"
  by (simp add: mask_any_def)

lemma list_ex_map_id: "list_ex (\<lambda>b. b) (map p xs) = list_ex p xs"
  by (induction xs) simp_all

lemma row_contains_fun:
  "(\<lambda>r. list_ex (str_contains cfg pat) (name_cols r)) = row_contains cfg pat"
  by (simp add: fun_eq_iff row_contains_def)

lemma row_equals_fun: "(\<lambda>r. list_ex (\<lambda>cell. cell = Some region) (name_cols r)) = row_equals region"
  by (simp add: fun_eq_iff row_equals_def)

lemma contains_mask_sum:
  "mask_sum (contains_mask cfg rows pat) = 0 \<longleftrightarrow> filter (row_contains cfg pat) rows = []"
  by (simp add: contains_mask_def mask_sum_zero list_ex_map_id row_contains_fun)

lemma contains_mask_loc:
  "loc rows (mask_any (contains_mask cfg rows pat)) = filter (row_contains cfg pat) rows"
  by (simp add: contains_mask_def mask_any_map loc_map list_ex_map_id row_contains_fun)

lemma equals_mask_sum:
  "mask_sum (equals_mask rows region) = 0 \<longleftrightarrow> filter (row_equals region) rows = []"
  by (simp add: equals_mask_def mask_sum_zero list_ex_map_id row_equals_fun)

lemma equals_mask_loc:
  "loc rows (mask_any (equals_mask rows region)) = filter (row_equals region) rows"
  by (simp add: equals_mask_def mask_any_map loc_map list_ex_map_id row_equals_fun)

lemma equals_mask_pos:
  "0 < mask_sum (equals_mask rows region) \<longleftrightarrow> filter (row_equals region) rows \<noteq> []"
  using equals_mask_sum [of rows region] by auto

lemma geo_candidates_Nil:
  "geo_candidates cfg region = [] \<longleftrightarrow>
   filter (row_contains cfg (remove_suffix region)) (geos cfg) = []"
  by (auto simp: geo_candidates_def Let_def)

lemma geo_candidates_subset: "set (geo_candidates cfg region) \<subseteq> set (geos cfg)"
  by (auto simp: geo_candidates_def Let_def)


lemma from_geo_re_error:
  "re_compile cfg (remove_suffix region) = None \<Longrightarrow>
   region_to_country_from_geo cfg st region = (Inl ReError, st)"
  by (simp add: region_to_country_from_geo_def)

lemma from_geo_eq:
  assumes "re_compile cfg (remove_suffix region) \<noteq> None"
  shows "region_to_country_from_geo cfg st region =
     (case geo_candidates cfg region of
        [] \<Rightarrow> (Inr None, st)
      | r # _ \<Rightarrow> (Inr (Some (row_tuple r)),
                  st\<lparr>region_dict := (region_dict st)(region \<mapsto> row_tuple r)\<rparr>))"
proof (cases "filter (row_contains cfg (remove_suffix region)) (geos cfg) = []")
  case True
  with assms show ?thesis
    by (auto simp: region_to_country_from_geo_def contains_mask_sum geo_candidates_def)
next
  case False
  from False have ne: "geo_candidates cfg region \<noteq> []" by (simp add: geo_candidates_Nil)
  from assms obtain search where c: "re_compile cfg (remove_suffix region) = Some search"
    by auto
  have "region_to_country_from_geo cfg st region =
          (case geo_candidates cfg region of
             [] \<Rightarrow> (Inl IndexError, st)
           | r # _ \<Rightarrow> (Inr (Some (row_tuple r)),
                  st\<lparr>region_dict := (region_dict st)(region \<mapsto> row_tuple r)\<rparr>))"
    using False c
    by (simp add: region_to_country_from_geo_def Let_def contains_mask_sum contains_mask_loc
        equals_mask_sum equals_mask_pos equals_mask_loc geo_candidates_def row_tuple_def
        cong: list.case_cong)
  with ne show ?thesis by (cases "geo_candidates cfg region") simp_all
qed

lemma from_geo_cases:
  assumes "region_to_country_from_geo cfg st region = (res, st')"
  obtains (error) "res = Inl ReError" "st' = st" "re_compile cfg (remove_suffix region) = None"
  | (none) "res = Inr None" "st' = st" "geo_candidates cfg region = []"
  | (some) r rs where "geo_candidates cfg region = r # rs"
      "res = Inr (Some (row_tuple r))"
      "st' = st\<lparr>region_dict := (region_dict st)(region \<mapsto> row_tuple r)\<rparr>"
proof (cases "re_compile cfg (remove_suffix region) = None")
  case True
  with assms error show ?thesis by (simp add: from_geo_re_error)
next
  case False
  with assms none some show ?thesis by (auto simp: from_geo_eq split: list.splits)
qed

lemma from_geo_error:
  "region_to_country_from_geo cfg st region = (Inl e, st') \<Longrightarrow> e = ReError \<and> st' = st"
  by (erule from_geo_cases) auto

lemma from_geo_None_state:
  "region_to_country_from_geo cfg st region = (Inr None, st') \<Longrightarrow> st' = st"
  by (erule from_geo_cases) auto

lemma from_geo_frame:
  "region_to_country_from_geo cfg st region = (res, st') \<Longrightarrow>
   error_regions st' = error_regions st \<and> warnings st' = warnings st \<and> requests st' = requests st
   \<and> dom (region_dict st) \<subseteq> dom (region_dict st')"
  by (erule from_geo_cases) auto

lemma from_geo_Some_row:
  "region_to_country_from_geo cfg st region = (Inr (Some t), st') \<Longrightarrow>
   from_geo_row (geos cfg) t \<and> region_dict st' region = Some t"
proof (erule from_geo_cases)
  fix r rs
  assume c: "geo_candidates cfg region = r # rs"
    and "Inr (Some t) = Inr (Some (row_tuple r))"
    and s: "st' = st\<lparr>region_dict := (region_dict st)(region \<mapsto> row_tuple r)\<rparr>"
  then have t: "t = row_tuple r" by simp
  from c geo_candidates_subset [of cfg region] have "r \<in> set (geos cfg)" by auto
  with t s show ?thesis by (auto simp: from_geo_row_def list_ex_iff)
qed simp_all

lemma re_compile_Nil: "re_compile cfg [] = Some (sublist [])"
  by (simp add: re_compile_def)

lemma row_contains_plain:
  assumes "\<not> list_ex re_special pat"
  shows "row_contains cfg pat = row_contains_substring pat"
proof
  fix r
  have "str_contains cfg pat = (\<lambda>cell. case cell of None \<Rightarrow> False | Some s \<Rightarrow> sublist pat s)"
    using assms by (simp add: fun_eq_iff str_contains_def re_compile_def)
  then show "row_contains cfg pat r = row_contains_substring pat r"
    by (simp add: row_contains_def row_contains_substring_def)
qed

lemma row_contains_Nil: "row_contains cfg [] = has_name"
proof
  fix r
  have "str_contains cfg [] cell = (cell \<noteq> None)" for cell
    by (cases cell) (simp_all add: str_contains_def re_compile_Nil)
  then show "row_contains cfg [] r = has_name r"
    by (simp add: row_contains_def has_name_def list_ex_iff)
qed

section \<open>Properties of the remote search client\<close>

lemma api_eq:
  "region_to_country_from_API cfg st region =
     (let response = endpoint cfg (search_url @ region);
          st1 = st\<lparr>requests := requests st @ [search_url @ region]\<rparr>
      in if status_code response \<noteq> 200
         then (Inl (TransportFailure (status_code response) (resp_text response)), st1)
         else (case data response of
                 c # _ \<Rightarrow>
                   (Inr (Some (cand_name c, cand_country_name c, cand_country_code c)),
                    st1\<lparr>region_dict := (region_dict st1)
                      (region \<mapsto> (Some (cand_name c), Some (cand_country_name c),
                                   Some (cand_country_code c)))\<rparr>)
               | [] \<Rightarrow>
                   if remove_suffix region \<noteq> region
                   then region_to_country_from_API cfg st1 (remove_suffix region)
                   else (Inr None, st1)))"
  by (subst region_to_country_from_API.simps)
     (simp add: connect_to_endpoint_def Let_def split: list.splits)

lemma api_fail:
  "status_code (endpoint cfg (search_url @ region)) \<noteq> 200 \<Longrightarrow>
   region_to_country_from_API cfg st region =
     (Inl (TransportFailure (status_code (endpoint cfg (search_url @ region)))
                            (resp_text (endpoint cfg (search_url @ region)))),
      st\<lparr>requests := requests st @ [search_url @ region]\<rparr>)"
  by (subst api_eq) (simp add: Let_def)

lemma api_found:
  "status_code (endpoint cfg (search_url @ region)) = 200 \<Longrightarrow>
   data (endpoint cfg (search_url @ region)) = c # cs \<Longrightarrow>
   region_to_country_from_API cfg st region =
     (Inr (Some (cand_name c, cand_country_name c, cand_country_code c)),
      st\<lparr>requests := requests st @ [search_url @ region],
         region_dict := (region_dict st)
           (region \<mapsto> (Some (cand_name c), Some (cand_country_name c),
                        Some (cand_country_code c)))\<rparr>)"
  by (subst api_eq) (simp add: Let_def)

lemma api_retry:
  "status_code (endpoint cfg (search_url @ region)) = 200 \<Longrightarrow>
   data (endpoint cfg (search_url @ region)) = [] \<Longrightarrow>
   remove_suffix region \<noteq> region \<Longrightarrow>
   region_to_country_from_API cfg st region =
     region_to_country_from_API cfg (st\<lparr>requests := requests st @ [search_url @ region]\<rparr>)
       (remove_suffix region)"
  by (subst api_eq) (simp add: Let_def)

lemma api_not_found:
  "status_code (endpoint cfg (search_url @ region)) = 200 \<Longrightarrow>
   data (endpoint cfg (search_url @ region)) = [] \<Longrightarrow>
   remove_suffix region = region \<Longrightarrow>
   region_to_country_from_API cfg st region =
     (Inr None, st\<lparr>requests := requests st @ [search_url @ region]\<rparr>)"
  by (subst api_eq) (simp add: Let_def)

lemma api_post: "api_ok st region (region_to_country_from_API cfg st region)"
proof (induction region arbitrary: st rule: length_induct)
  case (1 region)
  let ?resp = "endpoint cfg (search_url @ region)"
  let ?st1 = "st\<lparr>requests := requests st @ [search_url @ region]\<rparr>"
  show ?case
  proof (cases "status_code ?resp = 200")
    case False
    then show ?thesis by (simp add: api_fail api_ok_def)
  next
    case ok: True
    show ?thesis
    proof (cases "data ?resp")
      case (Cons c cs)
      with ok show ?thesis by (simp add: api_found api_ok_def subset_insertI)
    next
      case Nil
      show ?thesis
      proof (cases "remove_suffix region = region")
        case True
        with ok Nil show ?thesis by (simp add: api_not_found api_ok_def)
      next
        case False
        then have len: "length (remove_suffix region) < length region"
          by (rule remove_suffix_shorter)
        have eq: "region_to_country_from_API cfg st region =
                  region_to_country_from_API cfg ?st1 (remove_suffix region)"
          using ok Nil False by (rule api_retry)
        have "api_ok ?st1 (remove_suffix region)
                (region_to_country_from_API cfg ?st1 (remove_suffix region))"
          using "1.IH" len by blast
        then show ?thesis
          unfolding eq api_ok_def using len by simp
      qed
    qed
  qed
qed

lemma api_warn_irrelevant:
  "region_to_country_from_API (cfg\<lparr>warn_region_mismatch := w\<rparr>) st region =
   region_to_country_from_API cfg st region"
proof (induction region arbitrary: st rule: length_induct)
  case (1 region)
  let ?cfg = "cfg\<lparr>warn_region_mismatch := w\<rparr>"
  let ?resp = "endpoint cfg (search_url @ region)"
  let ?st1 = "st\<lparr>requests := requests st @ [search_url @ region]\<rparr>"
  have e: "endpoint ?cfg (search_url @ region) = ?resp" by simp
  show ?case
  proof (cases "status_code ?resp = 200")
    case False
    then show ?thesis using api_fail [of ?cfg region st] api_fail [of cfg region st] by simp
  next
    case ok: True
    show ?thesis
    proof (cases "data ?resp")
      case (Cons c cs)
      with ok show ?thesis
        using api_found [of ?cfg region c cs st] api_found [of cfg region c cs st] by simp
    next
      case Nil
      show ?thesis
      proof (cases "remove_suffix region = region")
        case True
        with ok Nil show ?thesis
          using api_not_found [of ?cfg region st] api_not_found [of cfg region st] by simp
      next
        case False
        then have len: "length (remove_suffix region) < length region"
          by (rule remove_suffix_shorter)
        have "region_to_country_from_API ?cfg st region =
              region_to_country_from_API ?cfg ?st1 (remove_suffix region)"
          using ok Nil False by (intro api_retry) simp_all
        also have "\<dots> = region_to_country_from_API cfg ?st1 (remove_suffix region)"
          using "1.IH" len by blast
        also have "\<dots> = region_to_country_from_API cfg st region"
          using ok Nil False by (rule api_retry [symmetric])
        finally show ?thesis .
      qed
    qed
  qed
qed

section \<open>Properties of the cascade\<close>

lemma attempt_5_shape:
  "\<exists>t st'. attempt_5 cfg st region manual_tuple facebook_tuple = (Inr t, st')
      \<and> fst t = None \<and> region_dict st' = (region_dict st)(region \<mapsto> t)"
  by (cases facebook_tuple) (auto simp: attempt_5_def Let_def warn_def)

lemma attempt_5_trans:
  assumes "dom (region_dict st) \<subseteq> dom (region_dict st1)"
  shows "call_ok cfg st (attempt_5 cfg st1 region manual_tuple facebook_tuple)"
proof -
  obtain t st' where a: "attempt_5 cfg st1 region manual_tuple facebook_tuple = (Inr t, st')"
    and t: "fst t = None" and d: "region_dict st' = (region_dict st1)(region \<mapsto> t)"
    using attempt_5_shape by blast
  from d have "dom (region_dict st1) \<subseteq> dom (region_dict st')" by auto
  with assms have "dom (region_dict st) \<subseteq> dom (region_dict st')" by (rule subset_trans)
  with a t show ?thesis by (simp add: call_ok_def)
qed

lemma attempt_4_ok: "call_ok cfg st (attempt_4 cfg st region manual_tuple)"
proof (cases "region_to_country_from_API cfg st region")
  case (Pair res st1)
  have api: "api_ok st region (res, st1)" using api_post [of st region cfg] Pair by simp
  then have d1: "dom (region_dict st) \<subseteq> dom (region_dict st1)" by (simp add: api_ok_def)
  show ?thesis
  proof (cases res)
    case (Inl e)
    with Pair api show ?thesis by (auto simp: attempt_4_def call_ok_def api_ok_def)
  next
    case (Inr found)
    show ?thesis
    proof (cases found)
      case None
      with Pair Inr show ?thesis using attempt_5_trans [OF d1] by (simp add: attempt_4_def)
    next
      case (Some facebook_tuple)
      show ?thesis
      proof (cases "region_to_country_from_geo cfg st1 (fst facebook_tuple)")
        case g: (Pair gres st2)
        from from_geo_frame [OF g] d1 have d2: "dom (region_dict st) \<subseteq> dom (region_dict st2)"
          by auto
        show ?thesis
        proof (cases gres)
          case (Inl e)
          with g have "e = ReError" using from_geo_error by blast
          with Pair Inr Some g Inl d2 show ?thesis by (simp add: attempt_4_def call_ok_def)
        next
          case gr: (Inr gfound)
          show ?thesis
          proof (cases gfound)
            case None
            with Pair Inr Some g gr show ?thesis
              using attempt_5_trans [OF d2] by (simp add: attempt_4_def)
          next
            case gs: (Some country_tuple)
            with g gr have "from_geo_row (geos cfg) country_tuple"
              using from_geo_Some_row by blast
            with Pair Inr Some g gr gs d2 show ?thesis
              by (simp add: attempt_4_def call_ok_def)
          qed
        qed
      qed
    qed
  qed
qed

lemma attempt_3_ok: "call_ok cfg st (attempt_3 cfg st region)"
proof (cases "manual_get cfg region ! 0")
  case None
  then show ?thesis using attempt_4_ok by (simp add: attempt_3_def)
next
  case (Some corrected)
  show ?thesis
  proof (cases "corrected = []")
    case True
    with Some show ?thesis using attempt_4_ok by (simp add: attempt_3_def)
  next
    case False
    show ?thesis
    proof (cases "region_to_country_from_geo cfg st corrected")
      case g: (Pair gres st1)
      show ?thesis
      proof (cases gres)
        case (Inl e)
        with g have "e = ReError \<and> st1 = st" using from_geo_error by blast
        with Some False g Inl show ?thesis by (simp add: attempt_3_def call_ok_def)
      next
        case gr: (Inr gfound)
        show ?thesis
        proof (cases gfound)
          case None
          with g gr have "st1 = st" using from_geo_None_state by blast
          with Some False g gr None show ?thesis
            using attempt_4_ok by (simp add: attempt_3_def)
        next
          case gs: (Some country_tuple)
          with g gr have "from_geo_row (geos cfg) country_tuple"
            using from_geo_Some_row by blast
          moreover from from_geo_frame [OF g]
          have "dom (region_dict st) \<subseteq> dom (region_dict st1)" by simp
          ultimately show ?thesis using Some False g gr gs
            by (simp add: attempt_3_def call_ok_def)
        qed
      qed
    qed
  qed
qed

lemma region_to_country_miss:
  assumes "region_dict st (remove_parens region) = None"
  shows "call_ok cfg st (region_to_country cfg st region)"
proof (cases "region_to_country_from_geo cfg st (remove_parens region)")
  case g: (Pair gres st1)
  show ?thesis
  proof (cases gres)
    case (Inl e)
    with g have "e = ReError \<and> st1 = st" using from_geo_error by blast
    with assms g Inl show ?thesis by (simp add: region_to_country_def call_ok_def)
  next
    case gr: (Inr gfound)
    show ?thesis
    proof (cases gfound)
      case None
      with g gr have "st1 = st" using from_geo_None_state by blast
      with assms g gr None show ?thesis
        using attempt_3_ok by (simp add: region_to_country_def)
    next
      case gs: (Some country_tuple)
      with g gr have "from_geo_row (geos cfg) country_tuple"
        using from_geo_Some_row by blast
      moreover from from_geo_frame [OF g]
      have "dom (region_dict st) \<subseteq> dom (region_dict st1)" by simp
      ultimately show ?thesis using assms g gr gs
        by (simp add: region_to_country_def call_ok_def)
    qed
  qed
qed

lemma region_to_country_hit:
  "region_dict st (remove_parens region) = Some t \<Longrightarrow> region_to_country cfg st region = (Inr t, st)"
  by (simp add: region_to_country_def)

lemma region_to_country_dom:
  "dom (region_dict st) \<subseteq> dom (region_dict (snd (region_to_country cfg st region)))"
proof (cases "region_dict st (remove_parens region)")
  case None
  then show ?thesis using region_to_country_miss [of st region cfg] by (simp add: call_ok_def)
next
  case (Some t)
  then show ?thesis by (simp add: region_to_country_hit)
qed

lemma run_calls_dom: "dom (region_dict st) \<subseteq> dom (region_dict (run_calls cfg st regions))"
proof (induction regions arbitrary: st)
  case Nil
  then show ?case by simp
next
  case (Cons region regions)
  have "dom (region_dict st) \<subseteq> dom (region_dict (snd (region_to_country cfg st region)))"
    by (rule region_to_country_dom)
  also have "\<dots> \<subseteq> dom (region_dict (run_calls cfg (snd (region_to_country cfg st region)) regions))"
    by (rule Cons.IH)
  finally show ?case by simp
qed

lemma contains_suffix_word_iff:
  "contains_suffix_word s \<longleftrightarrow> (\<exists>w \<in> set self_suffixes. sublist w s)"
  by (simp add: contains_suffix_word_def list_ex_iff)

lemma re_compile_warn: "re_compile (cfg\<lparr>warn_region_mismatch := w\<rparr>) = re_compile cfg"
  by (simp add: fun_eq_iff re_compile_def)

lemma contains_mask_warn: "contains_mask (cfg\<lparr>warn_region_mismatch := w\<rparr>) = contains_mask cfg"
  by (simp add: fun_eq_iff contains_mask_def str_contains_def re_compile_warn)

lemma geo_warn_irrelevant:
  "region_to_country_from_geo (cfg\<lparr>warn_region_mismatch := w\<rparr>) st region =
   region_to_country_from_geo cfg st region"
  by (simp add: region_to_country_from_geo_def Let_def re_compile_warn contains_mask_warn
        cong: option.case_cong)

lemma manual_warn_irrelevant:
  "manual_get (cfg\<lparr>warn_region_mismatch := w\<rparr>) region = manual_get cfg region"
  by (simp add: manual_get_def)

lemma attempt_5_warn:
  "w \<noteq> 0 \<Longrightarrow> w' \<noteq> 0 \<Longrightarrow>
   attempt_5 (cfg\<lparr>warn_region_mismatch := w\<rparr>) st region manual_tuple facebook_tuple =
   attempt_5 (cfg\<lparr>warn_region_mismatch := w'\<rparr>) st region manual_tuple facebook_tuple"
  by (simp add: attempt_5_def Let_def split: option.splits)

lemma attempt_4_warn:
  "w \<noteq> 0 \<Longrightarrow> w' \<noteq> 0 \<Longrightarrow>
   attempt_4 (cfg\<lparr>warn_region_mismatch := w\<rparr>) st region manual_tuple =
   attempt_4 (cfg\<lparr>warn_region_mismatch := w'\<rparr>) st region manual_tuple"
  by (simp add: attempt_4_def api_warn_irrelevant geo_warn_irrelevant attempt_5_warn [of w w']
           split: prod.splits sum.splits option.splits)

lemma attempt_3_warn:
  "w \<noteq> 0 \<Longrightarrow> w' \<noteq> 0 \<Longrightarrow>
   attempt_3 (cfg\<lparr>warn_region_mismatch := w\<rparr>) st region =
   attempt_3 (cfg\<lparr>warn_region_mismatch := w'\<rparr>) st region"
  by (simp add: attempt_3_def Let_def manual_warn_irrelevant geo_warn_irrelevant
           attempt_4_warn [of w w'] split: prod.splits sum.splits option.splits)

lemma from_geo_None_eq:
  "fst (region_to_country_from_geo cfg st region) = Inr None \<Longrightarrow>
   region_to_country_from_geo cfg st region = (Inr None, st)"
  by (cases "region_to_country_from_geo cfg st region") (auto dest: from_geo_None_state)

lemma reaches_remote_search_eq:
  assumes "reaches_remote_search cfg st region"
  shows "region_to_country cfg st region =
         attempt_4 cfg st (remove_parens region) (manual_get cfg (remove_parens region))"
proof -
  let ?r = "remove_parens region"
  from assms have miss: "region_dict st ?r = None"
    and geo: "region_to_country_from_geo cfg st ?r = (Inr None, st)"
    by (simp_all add: reaches_remote_search_def Let_def from_geo_None_eq)
  then have a3: "region_to_country cfg st region = attempt_3 cfg st ?r"
    by (simp add: region_to_country_def Let_def)
  show ?thesis
  proof (cases "manual_get cfg ?r ! 0")
    case None
    then show ?thesis by (simp add: a3 attempt_3_def Let_def)
  next
    case (Some corrected)
    show ?thesis
    proof (cases "corrected = []")
      case True
      with Some show ?thesis by (simp add: a3 attempt_3_def Let_def)
    next
      case False
      with assms Some have "region_to_country_from_geo cfg st corrected = (Inr None, st)"
        by (simp add: reaches_remote_search_def Let_def from_geo_None_eq)
      with Some False show ?thesis by (simp add: a3 attempt_3_def Let_def)
    qed
  qed
qed

lemma search_queries_retry:
  "status_code (endpoint cfg (search_url @ region)) = 200 \<Longrightarrow>
   data (endpoint cfg (search_url @ region)) = [] \<Longrightarrow>
   remove_suffix region \<noteq> region \<Longrightarrow>
   search_queries cfg region = region # search_queries cfg (remove_suffix region)"
  by (subst search_queries.simps) (simp add: Let_def)

lemma search_queries_stop:
  "\<not> (status_code (endpoint cfg (search_url @ region)) = 200
      \<and> data (endpoint cfg (search_url @ region)) = [] \<and> remove_suffix region \<noteq> region) \<Longrightarrow>
   search_queries cfg region = [region]"
  by (subst search_queries.simps) (auto simp: Let_def)

lemma search_queries_not_Nil: "search_queries cfg region \<noteq> []"
proof (cases "status_code (endpoint cfg (search_url @ region)) = 200
      \<and> data (endpoint cfg (search_url @ region)) = [] \<and> remove_suffix region \<noteq> region")
  case True
  then show ?thesis by (simp add: search_queries_retry)
next
  case False
  then show ?thesis by (simp add: search_queries_stop)
qed

lemma api_transport_failure:
  "list_ex (\<lambda>q. status_code (endpoint cfg (search_url @ q)) \<noteq> 200) (search_queries cfg region) \<Longrightarrow>
   region_to_country_from_API cfg st region =
     (Inl (TransportFailure
             (status_code (endpoint cfg (search_url @ last (search_queries cfg region))))
             (resp_text (endpoint cfg (search_url @ last (search_queries cfg region))))),
      st\<lparr>requests := requests st @ map (\<lambda>q. search_url @ q) (search_queries cfg region)\<rparr>)"
proof (induction region arbitrary: st rule: length_induct)
  case (1 region)
  let ?st1 = "st\<lparr>requests := requests st @ [search_url @ region]\<rparr>"
  show ?case
  proof (cases "status_code (endpoint cfg (search_url @ region)) = 200
      \<and> data (endpoint cfg (search_url @ region)) = [] \<and> remove_suffix region \<noteq> region")
    case True
    then have len: "length (remove_suffix region) < length region"
      by (simp add: remove_suffix_shorter)
    from True have q: "search_queries cfg region = region # search_queries cfg (remove_suffix region)"
      by (simp add: search_queries_retry)
    with "1.prems" True
    have "list_ex (\<lambda>q. status_code (endpoint cfg (search_url @ q)) \<noteq> 200)
            (search_queries cfg (remove_suffix region))"
      by simp
    with "1.IH" len
    have "region_to_country_from_API cfg ?st1 (remove_suffix region) =
     (Inl (TransportFailure
             (status_code (endpoint cfg (search_url @ last (search_queries cfg (remove_suffix region)))))
             (resp_text (endpoint cfg (search_url @ last (search_queries cfg (remove_suffix region)))))),
      ?st1\<lparr>requests := requests ?st1 @ map (\<lambda>q. search_url @ q) (search_queries cfg (remove_suffix region))\<rparr>)"
      by blast
    moreover have "region_to_country_from_API cfg st region =
                   region_to_country_from_API cfg ?st1 (remove_suffix region)"
      using True by (simp add: api_retry)
    ultimately show ?thesis by (simp add: q search_queries_not_Nil)
  next
    case False
    then have q: "search_queries cfg region = [region]" by (rule search_queries_stop)
    with "1.prems" have "status_code (endpoint cfg (search_url @ region)) \<noteq> 200" by simp
    then show ?thesis by (simp add: q api_fail)
  qed
qed

section \<open>The claims of the specification\<close>

subsection \<open>Calling twice\<close>

text \<open>
  C1, evaluated. The region \<open>Sindh PK\<close> is resolved through the remote search: the first
  call returns the record of the geo row, the second call, from the cache, the record of
  the service. The region \<open>Scinde\<close> is resolved through the manual table: the call returns
  the record of the geo row and binds the manual name, not the region, so that the second
  call is not answered from the cache.
\<close>

theorem region_to_country_twice:
  "fst (region_to_country cfg_ex st_empty ''Sindh PK'') =
     Inr (Some ''Sindh'', Some ''Pakistan'', Some ''PK'')
   \<and> fst (region_to_country cfg_ex (snd (region_to_country cfg_ex st_empty ''Sindh PK''))
         ''Sindh PK'') =
     Inr (Some ''Sindh Province'', Some ''Pakistan'', Some ''PK'')
   \<and> fst (region_to_country cfg_ex st_empty ''Scinde'') =
     Inr (Some ''Sindh'', Some ''Pakistan'', Some ''PK'')
   \<and> region_dict (snd (region_to_country cfg_ex st_empty ''Scinde'')) ''Scinde'' = None
   \<and> region_dict (snd (region_to_country cfg_ex st_empty ''Scinde'')) ''Sindh'' =
     Some (Some ''Sindh'', Some ''Pakistan'', Some ''PK'')"
  by code_simp

subsection \<open>Growth of the cache\<close>

text \<open>
  C2 (as the code has it). Over any sequence of calls of \<open>region_to_country\<close>, a key that
  is bound in the cache stays bound: no call removes a key.
\<close>

theorem region_dict_keys_kept:
  assumes "region_dict st key \<noteq> None"
  shows "region_dict (run_calls cfg st regions) key \<noteq> None"
proof -
  from assms have "key \<in> dom (region_dict st)" by (simp add: domIff)
  with run_calls_dom [of st cfg regions] have "key \<in> dom (region_dict (run_calls cfg st regions))"
    by (rule subsetD)
  then show ?thesis by (simp add: domIff)
qed

theorem region_dict_keys_kept_witness:
  "region_dict (run_calls cfg_ex st_empty [''Foo'']) ''Foo'' \<noteq> None
   \<and> region_dict (run_calls cfg_ex (run_calls cfg_ex st_empty [''Foo'']) [''Foo State''])
        ''Foo'' \<noteq> None"
proof -
  have a: "region_dict (run_calls cfg_ex st_empty [''Foo'']) ''Foo'' \<noteq> None" by code_simp
  from a region_dict_keys_kept [OF a] show ?thesis by (rule conjI)
qed

text \<open>
  The claim C2 as the specification words it fails: the call for \<open>Foo\<close> binds the key
  \<open>Foo\<close> to a record without corrected name; the later call for \<open>Foo State\<close> searches the
  remote service for \<open>Foo\<close> again, and the client binds the key to the record of the service.
\<close>

theorem region_dict_rebound_counterexample:
  "region_dict (run_calls cfg_ex st_empty [''Foo'']) ''Foo'' =
     Some (None, Some ''Freedonia'', Some ''FD'')
   \<and> region_dict (run_calls cfg_ex st_empty [''Foo'', ''Foo State'']) ''Foo'' =
     Some (Some ''Fooland'', Some ''Freedonia'', Some ''FD'')"
  by code_simp

subsection \<open>Narrowing of the geo matches\<close>




subsection \<open>Transport failure\<close>

text \<open>
  C4. Let the resolution of a region reach the remote search, and let the service answer
  one of the requests of the search, the first one or a retry with a stripped query, with
  a status other than 200. Then \<open>region_to_country\<close> raises the transport failure of that
  answer, and the failing request is the last one it sends. The session is as before the
  call but for the requests sent: nothing is written to the cache, no error region is
  recorded and no warning is issued.
\<close>

theorem transport_failure_propagates:
  assumes "reaches_remote_search cfg st region"
    and "list_ex (\<lambda>q. status_code (endpoint cfg (search_url @ q)) \<noteq> 200)
           (search_queries cfg (remove_parens region))"
  shows "region_to_country cfg st region =
           (let queries = search_queries cfg (remove_parens region);
                response = endpoint cfg (search_url @ last queries)
            in (Inl (TransportFailure (status_code response) (resp_text response)),
                st\<lparr>requests := requests st @ map (\<lambda>q. search_url @ q) queries\<rparr>))"
proof -
  have "region_to_country cfg st region =
          attempt_4 cfg st (remove_parens region) (manual_get cfg (remove_parens region))"
    using assms(1) by (rule reaches_remote_search_eq)
  then show ?thesis
    by (simp add: attempt_4_def api_transport_failure [OF assms(2)] Let_def)
qed

theorem transport_failure_propagates_witness:
  "reaches_remote_search cfg_ex st_empty ''Bad State''
   \<and> list_ex (\<lambda>q. status_code (endpoint cfg_ex (search_url @ q)) \<noteq> 200)
         (search_queries cfg_ex (remove_parens ''Bad State''))
   \<and> search_queries cfg_ex (remove_parens ''Bad State'') = [''Bad State'', ''Bad'']
   \<and> fst (region_to_country cfg_ex st_empty ''Bad State'') =
       Inl (TransportFailure 503 ''Service Unavailable'')
   \<and> region_dict (snd (region_to_country cfg_ex st_empty ''Bad State'')) = region_dict st_empty
   \<and> error_regions (snd (region_to_country cfg_ex st_empty ''Bad State'')) = error_regions st_empty
   \<and> warnings (snd (region_to_country cfg_ex st_empty ''Bad State'')) = warnings st_empty"
proof -
  have a: "reaches_remote_search cfg_ex st_empty ''Bad State''" by code_simp
  have b: "list_ex (\<lambda>q. status_code (endpoint cfg_ex (search_url @ q)) \<noteq> 200)
         (search_queries cfg_ex (remove_parens ''Bad State''))"
    by code_simp
  have q: "search_queries cfg_ex (remove_parens ''Bad State'') = [''Bad State'', ''Bad'']"
    by code_simp
  have v1: "status_code (endpoint cfg_ex
              (search_url @ last (search_queries cfg_ex (remove_parens ''Bad State'')))) = 503"
    by code_simp
  have v2: "resp_text (endpoint cfg_ex
              (search_url @ last (search_queries cfg_ex (remove_parens ''Bad State'')))) =
            ''Service Unavailable''"
    by code_simp
  note e = transport_failure_propagates [OF a b, unfolded Let_def]
  have c1: "fst (region_to_country cfg_ex st_empty ''Bad State'') =
       Inl (TransportFailure 503 ''Service Unavailable'')"
    unfolding e by (simp only: fst_conv v1 v2)
  have c2: "region_dict (snd (region_to_country cfg_ex st_empty ''Bad State'')) = region_dict st_empty"
    unfolding e by simp
  have c3: "error_regions (snd (region_to_country cfg_ex st_empty ''Bad State'')) = error_regions st_empty"
    unfolding e by simp
  have c4: "warnings (snd (region_to_country cfg_ex st_empty ''Bad State'')) = warnings st_empty"
    unfolding e by simp
  from a b q c1 c2 c3 c4 show ?thesis by blast
qed

subsection \<open>The suffix normalizer: strings without suffix words\<close>

text \<open>
  C5 (as the code has it). A string in which no suffix word occurs, which has no two
  adjacent spaces and does not end in whitespace, is returned unchanged by the normalizer.
\<close>

theorem remove_suffix_unchanged:
  assumes "\<not> contains_suffix_word s"
    and "\<not> sublist ''  '' s"
    and "s = [] \<or> \<not> py_isspace (last s)"
  shows "remove_suffix s = s"
proof -
  from assms(1) have "\<forall>w \<in> set self_suffixes. \<not> sublist w s"
    by (simp add: contains_suffix_word_iff)
  then have "remove_suffix s = rstrip (sub_spaces s)" by (rule remove_suffix_absent)
  with assms(2,3) show ?thesis by (simp add: sub_spaces_no_runs rstrip_no_trailing)
qed

theorem remove_suffix_unchanged_witness:
  "\<not> contains_suffix_word ''Sindh'' \<and> \<not> sublist ''  '' ''Sindh''
   \<and> (''Sindh'' = [] \<or> \<not> py_isspace (last ''Sindh'')) \<and> remove_suffix ''Sindh'' = ''Sindh''"
proof -
  have a: "\<not> contains_suffix_word ''Sindh''" by code_simp
  have b: "\<not> sublist ''  '' ''Sindh''" by code_simp
  have c: "''Sindh'' = [] \<or> \<not> py_isspace (last ''Sindh'')" by code_simp
  from a b c remove_suffix_unchanged [OF a b c] show ?thesis by simp
qed

text \<open>
  The claim C5 as the specification words it fails: no suffix word occurs in the string
  \<open>Sindh\<close> followed by one space, and the normalizer removes the space.
\<close>

theorem remove_suffix_unchanged_counterexample:
  "\<not> contains_suffix_word ''Sindh '' \<and> remove_suffix ''Sindh '' \<noteq> ''Sindh ''"
  by code_simp

subsection \<open>The suffix normalizer: idempotence\<close>

text \<open>
  C6 (as the code has it). When no suffix word occurs in the output of the normalizer,
  normalizing the output again returns it unchanged.
\<close>

theorem remove_suffix_idempotent:
  assumes "\<not> contains_suffix_word (remove_suffix s)"
  shows "remove_suffix (remove_suffix s) = remove_suffix s"
proof -
  let ?b = "sub_spaces (strip_words self_suffixes s)"
  have x: "remove_suffix s = rstrip ?b" by (simp add: remove_suffix_alt)
  from assms have no: "\<forall>w \<in> set self_suffixes. \<not> sublist w (rstrip ?b)"
    by (simp add: contains_suffix_word_iff x)
  have "\<not> sublist ''  '' (rstrip ?b)"
    using sub_spaces_collapsed [of "strip_words self_suffixes s"] sublist_rstrip by blast
  then have "sub_spaces (rstrip ?b) = rstrip ?b" by (rule sub_spaces_no_runs)
  then have "rstrip (sub_spaces (rstrip ?b)) = rstrip ?b" by (simp add: rstrip_idem)
  moreover have "remove_suffix (rstrip ?b) = rstrip (sub_spaces (rstrip ?b))"
    using no by (rule remove_suffix_absent)
  ultimately show ?thesis using x by simp
qed

theorem remove_suffix_idempotent_witness:
  "\<not> contains_suffix_word (remove_suffix ''Sindh Province'')
   \<and> remove_suffix (remove_suffix ''Sindh Province'') = remove_suffix ''Sindh Province''"
proof -
  have a: "\<not> contains_suffix_word (remove_suffix ''Sindh Province'')" by code_simp
  from a remove_suffix_idempotent [OF a] show ?thesis by (rule conjI)
qed

text \<open>
  The claim C6 as the specification words it fails: removing \<open>State\<close> from \<open>StaStatete\<close>
  leaves \<open>State\<close>, which a second application removes.
\<close>

theorem remove_suffix_idempotent_counterexample:
  "remove_suffix ''StaStatete'' = ''State''
   \<and> remove_suffix (remove_suffix ''StaStatete'') = []
   \<and> remove_suffix (remove_suffix ''StaStatete'') \<noteq> remove_suffix ''StaStatete''"
  by code_simp

subsection \<open>Termination of the remote search\<close>

text \<open>
  C7. The remote search client is a total function, its recursion justified by the length
  of the query. A call sends at most one request per character of the query, and one more.
  When the service answers with success and no candidate, the client retries with the
  suffix-stripped query if stripping changed the query, and that query is strictly
  shorter; otherwise it reports not-found.
\<close>

theorem remote_search_terminates:
  "length (requests (snd (region_to_country_from_API cfg st region)))
     \<le> length (requests st) + Suc (length region)
   \<and> (status_code (endpoint cfg (search_url @ region)) = 200
        \<and> data (endpoint cfg (search_url @ region)) = []
      \<longrightarrow> region_to_country_from_API cfg st region =
            (if remove_suffix region \<noteq> region
             then region_to_country_from_API cfg
                    (st\<lparr>requests := requests st @ [search_url @ region]\<rparr>) (remove_suffix region)
             else (Inr None, st\<lparr>requests := requests st @ [search_url @ region]\<rparr>))
          \<and> (remove_suffix region \<noteq> region
               \<longrightarrow> length (remove_suffix region) < length region))"
proof -
  have "length (requests (snd (region_to_country_from_API cfg st region)))
     \<le> length (requests st) + Suc (length region)"
    using api_post [of st region cfg] by (simp add: api_ok_def)
  moreover have "region_to_country_from_API cfg st region =
            (if remove_suffix region \<noteq> region
             then region_to_country_from_API cfg
                    (st\<lparr>requests := requests st @ [search_url @ region]\<rparr>) (remove_suffix region)
             else (Inr None, st\<lparr>requests := requests st @ [search_url @ region]\<rparr>))"
    if "status_code (endpoint cfg (search_url @ region)) = 200"
      and "data (endpoint cfg (search_url @ region)) = []"
    using that by (simp add: api_retry api_not_found)
  ultimately show ?thesis by (simp add: remove_suffix_shorter)
qed

theorem remote_search_terminates_witness:
  "status_code (endpoint cfg_ex (search_url @ ''Foo State'')) = 200
   \<and> data (endpoint cfg_ex (search_url @ ''Foo State'')) = []
   \<and> remove_suffix ''Foo State'' \<noteq> ''Foo State''
   \<and> length (remove_suffix ''Foo State'') < length ''Foo State''
   \<and> region_to_country_from_API cfg_ex st_empty ''Foo State'' =
       (if remove_suffix ''Foo State'' \<noteq> ''Foo State''
        then region_to_country_from_API cfg_ex
               (st_empty\<lparr>requests := requests st_empty @ [search_url @ ''Foo State'']\<rparr>)
               (remove_suffix ''Foo State'')
        else (Inr None, st_empty\<lparr>requests := requests st_empty @ [search_url @ ''Foo State'']\<rparr>))
   \<and> length (requests (snd (region_to_country_from_API cfg_ex st_empty ''Foo State'')))
       \<le> length (requests st_empty) + Suc (length ''Foo State'')"
proof -
  have a: "status_code (endpoint cfg_ex (search_url @ ''Foo State'')) = 200" by code_simp
  have b: "data (endpoint cfg_ex (search_url @ ''Foo State'')) = []" by code_simp
  have c: "remove_suffix ''Foo State'' \<noteq> ''Foo State''" by code_simp
  from a b c remote_search_terminates [of cfg_ex st_empty "''Foo State''"]
  show ?thesis by blast
qed

subsection \<open>Records and geo rows\<close>

text \<open>
  C8 (as the code has it). A record with a corrected name that \<open>region_to_country\<close> returns
  for a region that is not in the cache is the name, the country name and the ISO code of
  one row of the geo table. So is every record that the geo matcher returns, and the
  matcher binds its query to that record in the cache.
\<close>

theorem fresh_record_from_geo_row:
  "(region_dict st (remove_parens region) = None
      \<and> fst (region_to_country cfg st region) = Inr (Some corrected, country, iso_code)
    \<longrightarrow> from_geo_row (geos cfg) (Some corrected, country, iso_code))
   \<and> (fst (region_to_country_from_geo cfg st query) = Inr (Some t)
    \<longrightarrow> from_geo_row (geos cfg) t
        \<and> region_dict (snd (region_to_country_from_geo cfg st query)) query = Some t)"
proof (rule conjI)
  show "region_dict st (remove_parens region) = None
      \<and> fst (region_to_country cfg st region) = Inr (Some corrected, country, iso_code)
    \<longrightarrow> from_geo_row (geos cfg) (Some corrected, country, iso_code)"
  proof
    assume a: "region_dict st (remove_parens region) = None
      \<and> fst (region_to_country cfg st region) = Inr (Some corrected, country, iso_code)"
    then have "call_ok cfg st (region_to_country cfg st region)"
      by (simp add: region_to_country_miss)
    with a show "from_geo_row (geos cfg) (Some corrected, country, iso_code)"
      by (auto simp: call_ok_def)
  qed
next
  show "fst (region_to_country_from_geo cfg st query) = Inr (Some t)
    \<longrightarrow> from_geo_row (geos cfg) t
        \<and> region_dict (snd (region_to_country_from_geo cfg st query)) query = Some t"
  proof
    assume "fst (region_to_country_from_geo cfg st query) = Inr (Some t)"
    then have "region_to_country_from_geo cfg st query =
                 (Inr (Some t), snd (region_to_country_from_geo cfg st query))"
      by (cases "region_to_country_from_geo cfg st query") simp
    then show "from_geo_row (geos cfg) t
        \<and> region_dict (snd (region_to_country_from_geo cfg st query)) query = Some t"
      by (rule from_geo_Some_row)
  qed
qed

theorem fresh_record_from_geo_row_witness:
  "region_dict st_empty (remove_parens ''Sindh Province (PK)'') = None
   \<and> fst (region_to_country cfg_ex st_empty ''Sindh Province (PK)'') =
       Inr (Some ''Sindh'', Some ''Pakistan'', Some ''PK'')
   \<and> from_geo_row (geos cfg_ex) (Some ''Sindh'', Some ''Pakistan'', Some ''PK'')
   \<and> fst (region_to_country_from_geo cfg_ex st_empty ''Punjab'') =
       Inr (Some (Some ''Punjab'', Some ''India'', Some ''IN''))
   \<and> from_geo_row (geos cfg_ex) (Some ''Punjab'', Some ''India'', Some ''IN'')
   \<and> region_dict (snd (region_to_country_from_geo cfg_ex st_empty ''Punjab'')) ''Punjab'' =
       Some (Some ''Punjab'', Some ''India'', Some ''IN'')"
proof -
  have a: "region_dict st_empty (remove_parens ''Sindh Province (PK)'') = None" by code_simp
  have b: "fst (region_to_country cfg_ex st_empty ''Sindh Province (PK)'') =
       Inr (Some ''Sindh'', Some ''Pakistan'', Some ''PK'')"
    by code_simp
  have c: "fst (region_to_country_from_geo cfg_ex st_empty ''Punjab'') =
       Inr (Some (Some ''Punjab'', Some ''India'', Some ''IN''))"
    by code_simp
  from a b c
    fresh_record_from_geo_row [of st_empty "''Sindh Province (PK)''" cfg_ex "''Sindh''"
      "Some ''Pakistan''" "Some ''PK''" "''Punjab''"
      "(Some ''Punjab'', Some ''India'', Some ''IN'')"]
  show ?thesis by blast
qed

text \<open>
  The claim C8 as the specification words it fails: the remote search client caches the
  record of the service under the region. Its corrected name \<open>Sindh Province\<close> is the name
  the service gave, no row of the geo table carries it, and the next call for the region
  returns that record.
\<close>

theorem cached_record_counterexample:
  "region_dict (snd (region_to_country cfg_ex st_empty ''Sindh PK'')) ''Sindh PK'' =
     Some (Some ''Sindh Province'', Some ''Pakistan'', Some ''PK'')
   \<and> \<not> from_geo_row (geos cfg_ex) (Some ''Sindh Province'', Some ''Pakistan'', Some ''PK'')
   \<and> \<not> list_ex (\<lambda>r. name r = Some ''Sindh Province'') (geos cfg_ex)"
  by code_simp

subsection \<open>Warning levels\<close>

text \<open>
  C9. A call of \<open>region_to_country\<close> with \<open>warn_region_mismatch\<close> set to 2 returns the same
  record and leaves the same session (cache, error regions, warnings, requests) as the call
  with the setting 1, for every region and every session.
\<close>

theorem warn_level_2_as_level_1:
  "region_to_country (cfg\<lparr>warn_region_mismatch := 2\<rparr>) st region =
   region_to_country (cfg\<lparr>warn_region_mismatch := 1\<rparr>) st region"
  by (simp add: region_to_country_def Let_def geo_warn_irrelevant attempt_3_warn [of 2 1]
           split: prod.splits sum.splits option.splits)

theorem warn_level_2_as_level_1_witness:
  "region_to_country (cfg_ex\<lparr>warn_region_mismatch := 2\<rparr>) st_empty ''Foo'' =
   region_to_country (cfg_ex\<lparr>warn_region_mismatch := 1\<rparr>) st_empty ''Foo''
   \<and> warnings (snd (region_to_country (cfg_ex\<lparr>warn_region_mismatch := 2\<rparr>) st_empty ''Foo'')) =
       [''Region Foo will not match geo dataframe!'']"
proof -
  have "warnings (snd (region_to_country (cfg_ex\<lparr>warn_region_mismatch := 2\<rparr>) st_empty ''Foo'')) =
       [''Region Foo will not match geo dataframe!'']"
    by code_simp
  with warn_level_2_as_level_1 [of cfg_ex st_empty "''Foo''"] show ?thesis by (rule conjI)
qed

subsection \<open>Queries of suffix words only\<close>

text \<open>
  C10 (as the code has it). A query that is a concatenation of suffix words and whitespace
  characters is stripped to the empty string, which every non-null name cell contains. If
  some row of the geo table has a non-null name cell, the matcher does not report
  not-found: it returns the fields of the first row with a non-null name cell, unless
  several rows have one and some of them carry a name equal to the query, in which case it
  returns the fields of the first of those.
\<close>

theorem suffix_only_query_matches:
  assumes "list_all suffix_or_space ts" and "list_ex has_name (geos cfg)"
  shows "remove_suffix (concat ts) = []
       \<and> str_contains cfg [] (Some s)
       \<and> fst (region_to_country_from_geo cfg st (concat ts)) =
           Inr (Some (let matched = filter has_name (geos cfg);
                          exact = filter (row_equals (concat ts)) matched;
                          r = hd (if 1 < length matched \<and> exact \<noteq> [] then exact else matched)
                      in (name r, country_name r, iso_a2 r)))"
proof -
  let ?q = "concat ts"
  let ?m = "filter has_name (geos cfg)"
  let ?e = "filter (row_equals ?q) ?m"
  let ?c = "if 1 < length ?m \<and> ?e \<noteq> [] then ?e else ?m"
  have empty: "remove_suffix ?q = []" using assms(1) by (rule remove_suffix_tokens)
  then have c: "geo_candidates cfg ?q = ?c"
    by (simp add: geo_candidates_def Let_def row_contains_Nil)
  from empty have ok: "re_compile cfg (remove_suffix ?q) \<noteq> None" by (simp add: re_compile_Nil)
  from assms(2) have "?m \<noteq> []" by (auto simp: list_ex_iff filter_empty_conv)
  then have "?c \<noteq> []" by simp
  then obtain r rs where rs: "?c = r # rs" by (cases ?c) auto
  then have "hd ?c = r" by simp
  moreover have "fst (region_to_country_from_geo cfg st ?q) = Inr (Some (row_tuple r))"
    using c rs by (simp add: from_geo_eq [OF ok])
  ultimately have "fst (region_to_country_from_geo cfg st ?q) =
           Inr (Some (let matched = filter has_name (geos cfg);
                          exact = filter (row_equals ?q) matched;
                          r = hd (if 1 < length matched \<and> exact \<noteq> [] then exact else matched)
                      in (name r, country_name r, iso_a2 r)))"
    by (simp add: Let_def row_tuple_def)
  with empty show ?thesis by (simp add: str_contains_def re_compile_Nil)
qed

theorem suffix_only_query_matches_witness:
  "list_all suffix_or_space [''State'', '' '', ''Province''] \<and> list_ex has_name (geos cfg_ex)
   \<and> remove_suffix (concat [''State'', '' '', ''Province'']) = []
   \<and> fst (region_to_country_from_geo cfg_ex st_empty (concat [''State'', '' '', ''Province''])) =
       Inr (Some (Some ''Sindh'', Some ''Pakistan'', Some ''PK''))"
proof -
  have a: "list_all suffix_or_space [''State'', '' '', ''Province'']" by code_simp
  have b: "list_ex has_name (geos cfg_ex)" by code_simp
  have v: "(let matched = filter has_name (geos cfg_ex);
                exact = filter (row_equals (concat [''State'', '' '', ''Province''])) matched;
                r = hd (if 1 < length matched \<and> exact \<noteq> [] then exact else matched)
            in (name r, country_name r, iso_a2 r)) = (Some ''Sindh'', Some ''Pakistan'', Some ''PK'')"
    by code_simp
  from suffix_only_query_matches [OF a b, of "[]" st_empty]
  have "remove_suffix (concat [''State'', '' '', ''Province'']) = []"
    and "fst (region_to_country_from_geo cfg_ex st_empty (concat [''State'', '' '', ''Province''])) =
           Inr (Some (let matched = filter has_name (geos cfg_ex);
                exact = filter (row_equals (concat [''State'', '' '', ''Province''])) matched;
                r = hd (if 1 < length matched \<and> exact \<noteq> [] then exact else matched)
            in (name r, country_name r, iso_a2 r)))"
    by blast+
  with a b v show ?thesis by simp
qed

text \<open>
  The claim C10 as the specification words it fails: the query \<open>Zone\<close> is a suffix word,
  both rows of the table contain the empty string, and the matcher narrows to the second
  row, whose name is equal to the query, not to the first row of the table.
\<close>

theorem suffix_only_query_counterexample:
  "list_all suffix_or_space [''Zone''] \<and> remove_suffix (concat [''Zone'']) = []
   \<and> geos cfg_zone \<noteq> []
   \<and> fst (region_to_country_from_geo cfg_zone st_empty (concat [''Zone''])) =
       Inr (Some (Some ''Zone'', Some ''Sylvania'', Some ''SY''))
   \<and> row_tuple (hd (geos cfg_zone)) = (Some ''Alpha'', Some ''Freedonia'', Some ''FD'')"
  by code_simp

end
